theory Spec2Isabelle
  imports Main "HOL-Library.Word"
begin

section \<open>Data model\<close>

text \<open>
  A Python \<open>str\<close> is a sequence of Unicode code points, a \<open>bytes\<close> object a sequence
  of octets. Code points are natural numbers; ASCII literals are written through
  \<open>asc\<close>.
\<close>

type_synonym ustr = "nat list"
type_synonym bytes = "8 word list"

definition asc :: "string \<Rightarrow> ustr" where
  "asc s = map of_char s"

text \<open>
  The values a caller can hand to \<open>ensure_unicode\<close>. Python is dynamically typed, so the
  annotation \<open>KeyT = Union[str, bytes]\<close> does not keep other objects out; the aggregates
  and scalars below stand for them. A set keeps its elements in a list here (their
  order plays no role), a dict its items.
\<close>

datatype pyval =
    PyStr ustr
  | PyBytes bytes
  | PyList "pyval list"
  | PyTuple "pyval list"
  | PySet "pyval list"
  | PyDict "(pyval \<times> pyval) list"
  | PyInt int
  | PyNone

text \<open>
  Exceptions, by class. \<open>ensure_unicode\<close> raises \<open>TypeError\<close> itself; all others come out
  of the library calls, and which one a call raises is the library's matter.
\<close>

datatype py_error =
    TypeError
  | ValueError
  | LookupError
  | UnicodeError
  | UnicodeDecodeError
  | UnicodeEncodeError
  | FileNotFoundError
  | PermissionError
  | IsADirectoryError
  | BadGzipFile
  | EOFError
  | ZlibError
  | RecursionError
  | OtherError string

subsection \<open>The interpreter and platform underneath\<close>

text \<open>
  \<open>utils.py\<close> calls into the interpreter: \<open>bytes.decode\<close>, the formatting of a value
  in an f-string, the codecs of the text layer of \<open>open\<close>, the Unicode tables behind
  \<open>\w\<close> and \<open>str.lower\<close>, \<open>gzip\<close>, and the platform's defaults. None of this is code
  of the repository, so it is a parameter of the model:
  a record that the functions read. What is the same on every interpreter (the ASCII
  range, the regular-expression engine's search order, universal newlines) is defined
  below, once, outside the record.
\<close>

record codec =
  encoder :: "ustr \<Rightarrow> py_error + bytes"
  decoder :: "bytes \<Rightarrow> py_error + ustr"

text \<open>
  What a text stream makes of an encoding name: the codec; or the exception raised
  when the text layer is built for a name that is no text encoding; or the exception
  raised for a name that is not acceptable as an argument at all (builtin \<open>open\<close>
  raises this one before it touches the file).
\<close>

datatype codec_lookup = Found codec | Unknown py_error | Rejected py_error

record runtime =
  bytes_decode :: "bytes \<Rightarrow> ustr \<Rightarrow> py_error + ustr"
    \<comment> \<open>\<open>b.decode(encoding)\<close>: the text, or the exception the call raises\<close>
  format_error :: "pyval \<Rightarrow> py_error option"
    \<comment> \<open>the exception that formatting the value in an f-string raises, if it raises\<close>
  codecs :: "ustr \<Rightarrow> codec_lookup"
    \<comment> \<open>what a text stream makes of an encoding name\<close>
  default_codec :: codec
    \<comment> \<open>the codec a text stream gets when the caller passes no encoding\<close>
  linesep :: ustr
    \<comment> \<open>\<open>os.linesep\<close>\<close>
  word_ext :: "nat \<Rightarrow> bool"
    \<comment> \<open>which code points from 128 on are alphanumeric (\<open>str.isalnum\<close>)\<close>
  lower_ext :: "ustr \<Rightarrow> ustr"
    \<comment> \<open>\<open>str.lower\<close> on a string that has a code point from 128 on\<close>
  gzip_pack :: "ustr \<Rightarrow> nat \<Rightarrow> bytes \<Rightarrow> bytes"
    \<comment> \<open>the gzip member written for a file name, a clock reading and a payload\<close>
  gzip_unpack :: "bytes \<Rightarrow> py_error + bytes"
    \<comment> \<open>reading a gzip stream to its end: the payload, or the exception raised
        (\<open>BadGzipFile\<close>, \<open>EOFError\<close>, \<open>zlib.error\<close>)\<close>

subsection \<open>UTF-8, ASCII and Latin-1\<close>

text \<open>
  The three codecs the concrete examples use, as the Unicode standard defines them
  (well-formed UTF-8: shortest form only, no surrogates, nothing above U+10FFFF).
\<close>

definition cont :: "8 word \<Rightarrow> bool" where
  "cont b = (0x80 \<le> unat b \<and> unat b \<le> 0xBF)"

definition tail6 :: "8 word \<Rightarrow> nat" where
  "tail6 b = unat b - 0x80"

fun utf8_decode :: "bytes \<Rightarrow> ustr option" where
  "utf8_decode [] = Some []"
| "utf8_decode (b0 # bs) =
     (let n = unat b0 in
      if n < 0x80 then map_option ((#) n) (utf8_decode bs)
      else if 0xC2 \<le> n \<and> n \<le> 0xDF then
        (case bs of
           b1 # r \<Rightarrow>
             if cont b1
             then map_option ((#) ((n - 0xC0) * 64 + tail6 b1)) (utf8_decode r)
             else None
         | _ \<Rightarrow> None)
      else if 0xE0 \<le> n \<and> n \<le> 0xEF then
        (case bs of
           b1 # b2 # r \<Rightarrow>
             if cont b1 \<and> cont b2
                \<and> (n = 0xE0 \<longrightarrow> 0xA0 \<le> unat b1) \<and> (n = 0xED \<longrightarrow> unat b1 \<le> 0x9F)
             then map_option ((#) ((n - 0xE0) * 4096 + tail6 b1 * 64 + tail6 b2))
                    (utf8_decode r)
             else None
         | _ \<Rightarrow> None)
      else if 0xF0 \<le> n \<and> n \<le> 0xF4 then
        (case bs of
           b1 # b2 # b3 # r \<Rightarrow>
             if cont b1 \<and> cont b2 \<and> cont b3
                \<and> (n = 0xF0 \<longrightarrow> 0x90 \<le> unat b1) \<and> (n = 0xF4 \<longrightarrow> unat b1 \<le> 0x8F)
             then map_option
                    ((#) ((n - 0xF0) * 262144 + tail6 b1 * 4096 + tail6 b2 * 64 + tail6 b3))
                    (utf8_decode r)
             else None
         | _ \<Rightarrow> None)
      else None)"

definition utf8_bytes :: "nat \<Rightarrow> bytes option" where
  "utf8_bytes c =
     (if c < 0x80 then Some [word_of_nat c]
      else if c < 0x800 then
        Some [word_of_nat (0xC0 + c div 64), word_of_nat (0x80 + c mod 64)]
      else if 0xD800 \<le> c \<and> c \<le> 0xDFFF then None
      else if c < 0x10000 then
        Some [word_of_nat (0xE0 + c div 4096), word_of_nat (0x80 + c div 64 mod 64),
              word_of_nat (0x80 + c mod 64)]
      else if c < 0x110000 then
        Some [word_of_nat (0xF0 + c div 262144), word_of_nat (0x80 + c div 4096 mod 64),
              word_of_nat (0x80 + c div 64 mod 64), word_of_nat (0x80 + c mod 64)]
      else None)"

fun utf8_encode :: "ustr \<Rightarrow> bytes option" where
  "utf8_encode [] = Some []"
| "utf8_encode (c # cs) =
     (case utf8_bytes c of
        None \<Rightarrow> None
      | Some bs \<Rightarrow> map_option ((@) bs) (utf8_encode cs))"

definition narrow_encode :: "nat \<Rightarrow> ustr \<Rightarrow> bytes option" where
  "narrow_encode lim s = (if \<forall>c \<in> set s. c < lim then Some (map word_of_nat s) else None)"

definition narrow_decode :: "nat \<Rightarrow> bytes \<Rightarrow> ustr option" where
  "narrow_decode lim bs = (if \<forall>b \<in> set bs. unat b < lim then Some (map unat bs) else None)"

definition raising :: "py_error \<Rightarrow> 'a option \<Rightarrow> py_error + 'a" where
  "raising e r = (case r of None \<Rightarrow> Inl e | Some x \<Rightarrow> Inr x)"

definition strict_codec :: "(ustr \<Rightarrow> bytes option) \<Rightarrow> (bytes \<Rightarrow> ustr option) \<Rightarrow> codec" where
  "strict_codec enc dec =
     \<lparr>encoder = (\<lambda>s. raising UnicodeEncodeError (enc s)),
      decoder = (\<lambda>b. raising UnicodeDecodeError (dec b))\<rparr>"

definition utf8_codec :: codec where
  "utf8_codec = strict_codec utf8_encode utf8_decode"

definition ascii_codec :: codec where
  "ascii_codec = strict_codec (narrow_encode 128) (narrow_decode 128)"

definition latin1_codec :: codec where
  "latin1_codec = strict_codec (narrow_encode 256) (narrow_decode 256)"

section \<open>\<open>ensure_unicode\<close>\<close>

text \<open>
  \<^verbatim>\<open>
  def ensure_unicode(value, encoding="utf-8"):
      if isinstance(value, bytes):
          return value.decode(encoding)
      elif isinstance(value, list):
          raise TypeError(f"the provided value {value} is a list")
      return value
  \<close>
  \<open>value.decode(encoding)\<close> is the interpreter's: its result is returned and its
  exception, if it raises one, is the exception of \<open>ensure_unicode\<close>. In the list branch
  the message is built first, and the f-string formats the list for it; if that
  raises (an integer with more digits than the interpreter converts, a nesting too
  deep), this exception leaves the function and \<open>TypeError\<close> is not reached.
\<close>

definition ensure_unicode :: "runtime \<Rightarrow> pyval \<Rightarrow> ustr \<Rightarrow> py_error + pyval" where
  "ensure_unicode rt v encoding =
     (case v of
        PyBytes b \<Rightarrow>
          (case bytes_decode rt b encoding of Inl e \<Rightarrow> Inl e | Inr s \<Rightarrow> Inr (PyStr s))
      | PyList xs \<Rightarrow> (case format_error rt v of Some e \<Rightarrow> Inl e | None \<Rightarrow> Inl TypeError)
      | _ \<Rightarrow> Inr v)"

section \<open>\<open>_parse_into_words\<close>\<close>

text \<open>
  \<^verbatim>\<open>
  def _parse_into_words(text):
      return re.findall(r"(\w[\w']*\w|\w)", text)
  \<close>
  The pattern is a \<open>str\<close> pattern without flags, so \<open>\w\<close> is Unicode-aware: a code point
  that \<open>str.isalnum\<close> accepts, or the underscore. Below 128 that is \<open>[A-Za-z0-9_]\<close>; from
  128 on it is the interpreter's table.
\<close>

definition ascii_alnum :: "nat \<Rightarrow> bool" where
  "ascii_alnum c = ((48 \<le> c \<and> c \<le> 57) \<or> (65 \<le> c \<and> c \<le> 90) \<or> (97 \<le> c \<and> c \<le> 122))"

definition is_word :: "runtime \<Rightarrow> nat \<Rightarrow> bool" where
  "is_word rt c = (if c < 128 then ascii_alnum c \<or> c = 95 else word_ext rt c)"

text \<open>
  The fragment of \<open>re\<close> the pattern is written in: \<open>\w\<close> and a literal as atoms, a
  character set \<open>[...]\<close>, sequence, alternation \<open>|\<close> and the greedy star. The one group
  of the pattern encloses all of it, so what \<open>findall\<close> returns for a match (the text of
  group 1) is the text of the match.
\<close>

datatype atom = Word | Lit nat

datatype regex =
    Sym atom
  | Class "atom list"
  | Seq regex regex
  | Alt regex regex
  | Star regex

definition token_re :: regex where
  "token_re = Alt (Seq (Sym Word) (Seq (Star (Class [Word, Lit 39])) (Sym Word))) (Sym Word)"

fun in_atom :: "runtime \<Rightarrow> atom \<Rightarrow> nat \<Rightarrow> bool" where
  "in_atom rt Word c = is_word rt c"
| "in_atom rt (Lit k) c = (c = k)"

definition in_class :: "runtime \<Rightarrow> atom list \<Rightarrow> nat \<Rightarrow> bool" where
  "in_class rt as c = list_ex (\<lambda>a. in_atom rt a c) as"

text \<open>
  The engine is a backtracking matcher. \<open>rmatch rt r cs\<close> lists what can remain of \<open>cs\<close>
  after \<open>r\<close> has matched a prefix of it, in the order in which the engine tries the
  ways to match: the left branch of an alternation before the right one, one more
  round of a star before stopping. The head of the list is the match the engine
  reports. A round of a star that consumed nothing is not repeated.
\<close>

fun rmatch :: "runtime \<Rightarrow> regex \<Rightarrow> ustr \<Rightarrow> ustr list" where
  "rmatch rt (Sym a) cs = (case cs of [] \<Rightarrow> [] | c # r \<Rightarrow> if in_atom rt a c then [r] else [])"
| "rmatch rt (Class as) cs =
     (case cs of [] \<Rightarrow> [] | c # r \<Rightarrow> if in_class rt as c then [r] else [])"
| "rmatch rt (Seq r s) cs = concat (map (rmatch rt s) (rmatch rt r cs))"
| "rmatch rt (Alt r s) cs = rmatch rt r cs @ rmatch rt s cs"
| "rmatch rt (Star r) cs =
     concat (map (\<lambda>rest. if length rest < length cs then rmatch rt (Star r) rest else [])
                 (rmatch rt r cs)) @ [cs]"

text \<open>
  \<open>re.findall\<close> scans from the left: it searches for a match at the current position,
  then one character further, and so on; after a match it goes on where the match
  ended. After an empty match it searches again from the same position and refuses an
  empty match there (\<open>adv\<close>).
\<close>

function findall :: "runtime \<Rightarrow> regex \<Rightarrow> bool \<Rightarrow> ustr \<Rightarrow> ustr list" where
  "findall rt r adv cs =
     (case filter (\<lambda>rest. \<not> adv \<or> length rest < length cs) (rmatch rt r cs) of
        [] \<Rightarrow> (case cs of [] \<Rightarrow> [] | c # cs' \<Rightarrow> findall rt r False cs')
      | rest # _ \<Rightarrow>
          take (length cs - length rest) cs #
            (if length rest < length cs then findall rt r False rest
             else findall rt r True cs))"
  by pat_completeness auto
termination
  apply (relation "measure (\<lambda>(rt, r, adv, cs). 2 * length cs + (if adv then 0 else 1))")
     apply simp
    apply simp
   apply simp
  apply (auto simp: filter_eq_Cons_iff)
  done

declare findall.simps [simp del]

definition parse_into_words :: "runtime \<Rightarrow> ustr \<Rightarrow> ustr list" where
  "parse_into_words rt text = findall rt token_re False text"

subsection \<open>What the specification compares the tokenizer with\<close>

text \<open>
  Splitting on whitespace is \<open>str.split()\<close> without arguments: the maximal runs of
  characters that are not whitespace, where whitespace is what \<open>str.isspace\<close> accepts.
  Punctuation is \<open>string.punctuation\<close>, the 32 ASCII punctuation characters.
\<close>

definition is_space :: "nat \<Rightarrow> bool" where
  "is_space c =
     ((9 \<le> c \<and> c \<le> 13) \<or> (28 \<le> c \<and> c \<le> 32) \<or> c = 133 \<or> c = 160 \<or> c = 5760
      \<or> (8192 \<le> c \<and> c \<le> 8202) \<or> c = 8232 \<or> c = 8233 \<or> c = 8239 \<or> c = 8287
      \<or> c = 12288)"

definition ascii_punctuation :: "nat \<Rightarrow> bool" where
  "ascii_punctuation c =
     ((33 \<le> c \<and> c \<le> 47) \<or> (58 \<le> c \<and> c \<le> 64) \<or> (91 \<le> c \<and> c \<le> 96)
      \<or> (123 \<le> c \<and> c \<le> 126))"

function py_split :: "ustr \<Rightarrow> ustr list" where
  "py_split s =
     (case dropWhile is_space s of
        [] \<Rightarrow> []
      | c # r \<Rightarrow>
          (c # takeWhile (\<lambda>x. \<not> is_space x) r) # py_split (dropWhile (\<lambda>x. \<not> is_space x) r))"
  by pat_completeness auto
termination
proof (relation "measure length")
  fix s :: ustr and c r
  assume "dropWhile is_space s = c # r"
  then have "length r < length (dropWhile is_space s)" by simp
  also have "\<dots> \<le> length s" by (rule length_dropWhile_le)
  finally have "length r < length s" .
  moreover have "length (dropWhile (\<lambda>x. \<not> is_space x) r) \<le> length r"
    by (rule length_dropWhile_le)
  ultimately show "(dropWhile (\<lambda>x. \<not> is_space x) r, s) \<in> measure length" by simp
qed simp

declare py_split.simps [simp del]

section \<open>Files\<close>

text \<open>
  The file system and the process, as far as \<open>load_file\<close> and \<open>write_file\<close> touch them:
  what opening a name for reading gives (the bytes of the file, or the exception
  raised: no such file, no permission, a directory), the exception that opening a
  name for writing raises, if it raises one, the descriptors that are open, and the
  clock (a gzip header records the time of writing). A function that has an effect
  takes the world and returns it with its result.
\<close>

type_synonym fd = nat

record world =
  files :: "ustr \<Rightarrow> py_error + bytes"
  write_error :: "ustr \<Rightarrow> py_error option"
  open_fds :: "fd list"
  clock :: nat

type_synonym 'a io = "world \<Rightarrow> (py_error + 'a) \<times> world"

text \<open>
  \<open>PathOrStr = Union[Path, str]\<close>. A \<open>Path\<close> carries the string that \<open>str()\<close> and
  \<open>os.fspath\<close> return for it.
\<close>

datatype path_or_str = PathObj ustr | Str ustr

fun fspath :: "path_or_str \<Rightarrow> ustr" where
  "fspath (PathObj s) = s"
| "fspath (Str s) = s"

subsection \<open>String operations\<close>

text \<open>
  \<open>s[i:]\<close>: a negative \<open>i\<close> counts from the end, and an index outside the string is
  clipped, never an error. \<open>str.lower\<close> maps \<open>A\<close>..\<open>Z\<close> to \<open>a\<close>..\<open>z\<close> and leaves the rest of
  ASCII alone; on other strings it is the interpreter's.
\<close>

definition slice_from :: "int \<Rightarrow> 'a list \<Rightarrow> 'a list" where
  "slice_from i s =
     (let n = int (length s); j = (if i < 0 then max 0 (n + i) else min i n)
      in drop (nat j) s)"

definition ascii_lower :: "nat \<Rightarrow> nat" where
  "ascii_lower c = (if 65 \<le> c \<and> c \<le> 90 then c + 32 else c)"

definition str_lower :: "runtime \<Rightarrow> ustr \<Rightarrow> ustr" where
  "str_lower rt s = (if list_all (\<lambda>c. c < 128) s then map ascii_lower s else lower_ext rt s)"

subsection \<open>Text streams\<close>

text \<open>
  A text stream opened without a \<open>newline\<close> argument translates line ends. Reading
  turns \<open>\r\n\<close> and a lone \<open>\r\<close> into \<open>\n\<close>; writing turns \<open>\n\<close> into \<open>os.linesep\<close>.
\<close>

fun universal_newlines :: "ustr \<Rightarrow> ustr" where
  "universal_newlines (c # d # cs) =
     (if c = 13 \<and> d = 10 then 10 # universal_newlines cs
      else if c = 13 then 10 # universal_newlines (d # cs)
      else c # universal_newlines (d # cs))"
| "universal_newlines [c] = (if c = 13 then [10] else [c])"
| "universal_newlines [] = []"

definition write_newlines :: "runtime \<Rightarrow> ustr \<Rightarrow> ustr" where
  "write_newlines rt s = concat (map (\<lambda>c. if c = 10 then linesep rt else [c]) s)"

text \<open>
  A stream open for reading: its descriptor, the bytes of the file, the codec of its
  text layer, and whether a gzip layer lies between the two.
\<close>

record reader =
  r_fd :: fd
  r_raw :: bytes
  r_codec :: codec
  r_gzip :: bool

definition alloc_fd :: "world \<Rightarrow> fd" where
  "alloc_fd w = Suc (fold max (open_fds w) 0)"

definition close_fd :: "fd \<Rightarrow> world \<Rightarrow> world" where
  "close_fd d w = w\<lparr>open_fds := removeAll d (open_fds w)\<rparr>"

text \<open>
  \<open>open(filename, encoding=encoding)\<close>: the encoding must be acceptable as an argument,
  the file must open, and the encoding must be known, in this order; then a
  descriptor is open. A failed \<open>open\<close> hands out no descriptor: it closes the file
  itself when the text layer cannot be built.
\<close>

definition open_text :: "runtime \<Rightarrow> ustr \<Rightarrow> ustr \<Rightarrow> reader io" where
  "open_text rt filename encoding w =
     (case codecs rt encoding of
        Rejected e \<Rightarrow> (Inl e, w)
      | Unknown e \<Rightarrow> (case files w filename of Inl e' \<Rightarrow> (Inl e', w) | Inr raw \<Rightarrow> (Inl e, w))
      | Found c \<Rightarrow>
          (case files w filename of
             Inl e' \<Rightarrow> (Inl e', w)
           | Inr raw \<Rightarrow>
               (Inr \<lparr>r_fd = alloc_fd w, r_raw = raw, r_codec = c, r_gzip = False\<rparr>,
                w\<lparr>open_fds := alloc_fd w # open_fds w\<rparr>)))"

text \<open>
  \<open>gzip.open(filename, mode=mode, encoding=encoding)\<close> for the two modes \<open>__gzip_read\<close>
  is written for: its default \<open>"rb"\<close> and \<open>"rt"\<close>. In binary mode gzip refuses an
  \<open>encoding\<close> argument with \<open>ValueError\<close>, before it touches the file. In text mode it
  opens the file first and puts the text layer on it afterwards; if the text layer
  raises for the encoding, \<open>gzip.open\<close> does not close the file it has opened.
\<close>

datatype gz_mode = RB | RT

definition gzip_open :: "runtime \<Rightarrow> ustr \<Rightarrow> gz_mode \<Rightarrow> ustr \<Rightarrow> reader io" where
  "gzip_open rt filename mode encoding w =
     (case mode of
        RB \<Rightarrow> (Inl ValueError, w)
      | RT \<Rightarrow>
          (case files w filename of
             Inl e' \<Rightarrow> (Inl e', w)
           | Inr raw \<Rightarrow>
               (let w1 = w\<lparr>open_fds := alloc_fd w # open_fds w\<rparr> in
                case codecs rt encoding of
                  Rejected e \<Rightarrow> (Inl e, w1)
                | Unknown e \<Rightarrow> (Inl e, w1)
                | Found c \<Rightarrow>
                    (Inr \<lparr>r_fd = alloc_fd w, r_raw = raw, r_codec = c, r_gzip = True\<rparr>, w1))))"

text \<open>
  \<open>fobj.read()\<close> reads to the end: all bytes of the file, decompressed if the stream
  is a gzip stream, decoded, line ends translated. An exception of the gzip layer or
  of the codec is the exception of the read.
\<close>

definition decode_text :: "codec \<Rightarrow> bytes \<Rightarrow> py_error + ustr" where
  "decode_text c b =
     (case decoder c b of
        Inl e \<Rightarrow> Inl e
      | Inr s \<Rightarrow> Inr (universal_newlines s))"

definition stream_read :: "runtime \<Rightarrow> reader \<Rightarrow> py_error + ustr" where
  "stream_read rt f =
     (if r_gzip f
      then (case gzip_unpack rt (r_raw f) of
              Inl e \<Rightarrow> Inl e
            | Inr b \<Rightarrow> decode_text (r_codec f) b)
      else decode_text (r_codec f) (r_raw f))"

text \<open>
  \<open>with opn as h: body\<close> for a stream: if \<open>opn\<close> raises, the body does not run; otherwise
  the body runs and the stream is closed after it, whether it returned or raised, and
  its outcome is the outcome of the statement.
\<close>

definition with_stream :: "'h io \<Rightarrow> ('h \<Rightarrow> fd) \<Rightarrow> ('h \<Rightarrow> 'a io) \<Rightarrow> 'a io" where
  "with_stream opn fd_of body w =
     (case opn w of
        (Inl e, w1) \<Rightarrow> (Inl e, w1)
      | (Inr h, w1) \<Rightarrow> (case body h w1 of (res, w2) \<Rightarrow> (res, close_fd (fd_of h) w2)))"

subsection \<open>\<open>__gzip_read\<close> and \<open>load_file\<close>\<close>

text \<open>
  \<^verbatim>\<open>
  @contextlib.contextmanager
  def __gzip_read(filename, mode="rb", encoding="UTF-8"):
      with gzip.open(filename, mode=mode, encoding=encoding) as fobj:
          yield fobj.read()

  @contextlib.contextmanager
  def load_file(filename, encoding):
      if isinstance(filename, Path):
          filename = str(filename)
      if filename[-3:].lower() == ".gz":
          with __gzip_read(filename, mode="rt", encoding=encoding) as data:
              yield data
      else:
          with open(filename, encoding=encoding) as fobj:
              yield fobj.read()
  \<close>
  Both are generators turned into context managers. In \<open>with load_file(f, e) as data:
  block\<close> the generator runs up to its \<open>yield\<close>, the block runs with the value yielded,
  and then the generator is resumed: at the \<open>yield\<close> it either goes on (the block
  returned) or gets the block's exception raised there. So the block runs inside the
  generator's \<open>with\<close>, in the place of the \<open>yield\<close>; the model passes it as the
  argument \<open>block\<close>. An exception before the \<open>yield\<close> leaves the \<open>with\<close> statements of the
  generator and reaches the caller; the block does not run.
\<close>

definition gzip_read :: "runtime \<Rightarrow> ustr \<Rightarrow> gz_mode \<Rightarrow> ustr \<Rightarrow> (ustr \<Rightarrow> 'a io) \<Rightarrow> 'a io" where
  "gzip_read rt filename mode encoding block =
     with_stream (gzip_open rt filename mode encoding) r_fd
       (\<lambda>fobj w. case stream_read rt fobj of
                     Inl e \<Rightarrow> (Inl e, w)
                   | Inr data \<Rightarrow> block data w)"

definition load_file :: "runtime \<Rightarrow> path_or_str \<Rightarrow> ustr \<Rightarrow> (ustr \<Rightarrow> 'a io) \<Rightarrow> 'a io" where
  "load_file rt filename encoding block =
     (let filename = (case filename of PathObj s \<Rightarrow> s | Str s \<Rightarrow> s) in
      if str_lower rt (slice_from (- 3) filename) = asc ''.gz''
      then gzip_read rt filename RT encoding (\<lambda>data. block data)
      else with_stream (open_text rt filename encoding) r_fd
             (\<lambda>fobj w. case stream_read rt fobj of
                           Inl e \<Rightarrow> (Inl e, w)
                         | Inr data \<Rightarrow> block data w))"

text \<open>The block of a caller that keeps the text and does nothing else.\<close>

definition keep_text :: "ustr \<Rightarrow> ustr io" where
  "keep_text data w = (Inr data, w)"

subsection \<open>\<open>write_file\<close>\<close>

text \<open>
  \<^verbatim>\<open>
  def write_file(filepath, encoding, gzipped, data):
      if gzipped:
          with gzip.open(filepath, "wt") as fobj:
              fobj.write(data)
      else:
          with open(filepath, "w", encoding=encoding) as fobj:
              fobj.write(data)
  \<close>
  A stream open for writing: its descriptor, the name of its file, the codec of its
  text layer, and whether it compresses. Opening for writing creates the file or
  empties it, before the text layer is built: an unknown encoding leaves the file
  empty, an encoding refused as an argument leaves it alone.
  \<open>gzip.open(filepath, "wt")\<close> gets no encoding, so its text layer takes the default
  one. The model records a file's contents as they are once the stream is
  closed: an empty gzip member, or nothing, if nothing was written.
\<close>

record writer =
  w_fd :: fd
  w_name :: ustr
  w_codec :: codec
  w_gzip :: bool

definition stored :: "runtime \<Rightarrow> world \<Rightarrow> bool \<Rightarrow> ustr \<Rightarrow> bytes \<Rightarrow> bytes" where
  "stored rt w gz filename payload =
     (if gz then gzip_pack rt filename (clock w) payload else payload)"

definition open_w :: "runtime \<Rightarrow> bool \<Rightarrow> ustr \<Rightarrow> codec_lookup \<Rightarrow> writer io" where
  "open_w rt gz filename lk w =
     (case lk of
        Rejected e \<Rightarrow> (Inl e, w)
      | _ \<Rightarrow>
        (case write_error w filename of
           Some e' \<Rightarrow> (Inl e', w)
         | None \<Rightarrow>
             (let w1 = w\<lparr>files := (files w)(filename := Inr (stored rt w gz filename []))\<rparr> in
              case lk of
                Found c \<Rightarrow>
                  (Inr \<lparr>w_fd = alloc_fd w1, w_name = filename, w_codec = c, w_gzip = gz\<rparr>,
                   w1\<lparr>open_fds := alloc_fd w1 # open_fds w1\<rparr>)
              | Unknown e \<Rightarrow> (Inl e, w1)
              | Rejected e \<Rightarrow> (Inl e, w1))))"

definition open_text_w :: "runtime \<Rightarrow> path_or_str \<Rightarrow> ustr \<Rightarrow> writer io" where
  "open_text_w rt filepath encoding = open_w rt False (fspath filepath) (codecs rt encoding)"

definition gzip_open_wt :: "runtime \<Rightarrow> path_or_str \<Rightarrow> writer io" where
  "gzip_open_wt rt filepath = open_w rt True (fspath filepath) (Found (default_codec rt))"

definition stream_write :: "runtime \<Rightarrow> writer \<Rightarrow> ustr \<Rightarrow> unit io" where
  "stream_write rt f data w =
     (case encoder (w_codec f) (write_newlines rt data) of
        Inl e \<Rightarrow> (Inl e, w)
      | Inr b \<Rightarrow>
          (Inr (),
           w\<lparr>files := (files w)(w_name f := Inr (stored rt w (w_gzip f) (w_name f) b))\<rparr>))"

definition write_file :: "runtime \<Rightarrow> path_or_str \<Rightarrow> ustr \<Rightarrow> bool \<Rightarrow> ustr \<Rightarrow> unit io" where
  "write_file rt filepath encoding gzipped data =
     (if gzipped
      then with_stream (gzip_open_wt rt filepath) w_fd (\<lambda>fobj. stream_write rt fobj data)
      else with_stream (open_text_w rt filepath encoding) w_fd
             (\<lambda>fobj. stream_write rt fobj data))"

section \<open>An interpreter for the examples\<close>

text \<open>
  The concrete examples run on one instance of the parameters: UTF-8 as the default
  encoding, \<open>\n\<close> as line separator, the three codecs above under their usual names,
  the Unicode tables up to U+00FF (the examples stay below), and a gzip layer that
  stores the payload behind the two magic bytes of the format (an empty file reads as
  empty, other bytes without the magic are refused). An encoding name with a NUL in
  it is refused as an argument. \<open>bytes.decode\<close> gives the empty text for empty bytes
  without looking the encoding up, and uses the codecs otherwise. Formatting a value
  raises nothing (the examples have short numbers and little nesting). Every name
  can be opened for writing, and a name that is not a file is missing.
\<close>

definition sample_codecs :: "ustr \<Rightarrow> codec_lookup" where
  "sample_codecs name =
     (if 0 \<in> set name then Rejected ValueError
      else if name \<in> {asc ''utf-8'', asc ''UTF-8'', asc ''utf8''} then Found utf8_codec
      else if name \<in> {asc ''ascii'', asc ''us-ascii''} then Found ascii_codec
      else if name \<in> {asc ''latin-1'', asc ''latin1'', asc ''iso-8859-1''} then Found latin1_codec
      else Unknown LookupError)"

definition sample_decode :: "bytes \<Rightarrow> ustr \<Rightarrow> py_error + ustr" where
  "sample_decode b name =
     (case sample_codecs name of
        Rejected e \<Rightarrow> Inl e
      | Unknown e \<Rightarrow> (if b = [] then Inr [] else Inl e)
      | Found c \<Rightarrow> (if b = [] then Inr [] else decoder c b))"

definition latin1_alnum :: "nat \<Rightarrow> bool" where
  "latin1_alnum c =
     (c \<in> {0xAA, 0xB2, 0xB3, 0xB5, 0xB9, 0xBA, 0xBC, 0xBD, 0xBE}
      \<or> (0xC0 \<le> c \<and> c \<le> 0xFF \<and> c \<noteq> 0xD7 \<and> c \<noteq> 0xF7))"

definition latin1_lower :: "ustr \<Rightarrow> ustr" where
  "latin1_lower s =
     map (\<lambda>c. if 0xC0 \<le> c \<and> c \<le> 0xDE \<and> c \<noteq> 0xD7 then c + 32 else ascii_lower c) s"

definition magic_pack :: "ustr \<Rightarrow> nat \<Rightarrow> bytes \<Rightarrow> bytes" where
  "magic_pack filename mtime payload = 0x1F # 0x8B # payload"

fun magic_unpack :: "bytes \<Rightarrow> py_error + bytes" where
  "magic_unpack (a # b # payload) =
     (if a = 0x1F \<and> b = 0x8B then Inr payload else Inl BadGzipFile)"
| "magic_unpack [a] = Inl BadGzipFile"
| "magic_unpack [] = Inr []"

definition sample_runtime :: runtime where
  "sample_runtime =
     \<lparr>bytes_decode = sample_decode, format_error = (\<lambda>_. None),
      codecs = sample_codecs, default_codec = utf8_codec, linesep = [10],
      word_ext = latin1_alnum, lower_ext = latin1_lower,
      gzip_pack = magic_pack, gzip_unpack = magic_unpack\<rparr>"

definition empty_world :: world where
  "empty_world =
     \<lparr>files = (\<lambda>_. Inl FileNotFoundError), write_error = (\<lambda>_. None), open_fds = [], clock = 0\<rparr>"

definition sample_world :: world where
  "sample_world =
     \<lparr>files = (\<lambda>n. if n = asc ''d.GZ'' then Inr [0x1F, 0x8B, 0x68, 0xC3, 0xA9, 0x0D, 0x0A]
                   else if n = asc ''d.txt'' then Inr [0x68, 0xC3, 0xA9, 0x0D, 0x0A]
                   else if n = asc ''plain.gz'' then Inr [0x68, 0x69]
                   else Inl FileNotFoundError),
      write_error = (\<lambda>_. None), open_fds = [], clock = 0\<rparr>"

section \<open>Auxiliary notions for the proofs\<close>

text \<open>
  A character of the set \<open>[\w']\<close>; the remainders that \<open>[\w']*\w\<close> can leave, in the
  engine's order; and the remainder it does leave after the first character of a
  token (the whole rest, if the first alternative fails and the second one takes
  the single character).
\<close>

definition wa :: "runtime \<Rightarrow> nat \<Rightarrow> bool" where
  "wa rt c = (is_word rt c \<or> c = 39)"

definition tails :: "runtime \<Rightarrow> ustr \<Rightarrow> ustr list" where
  "tails rt cs = rmatch rt (Seq (Star (Class [Word, Lit 39])) (Sym Word)) cs"

definition tok_end :: "runtime \<Rightarrow> ustr \<Rightarrow> ustr" where
  "tok_end rt cs = hd (tails rt cs @ [cs])"

section \<open>Properties of \<open>ensure_unicode\<close>\<close>

lemmas sample_simps =
  sample_runtime_def sample_codecs_def utf8_codec_def ascii_codec_def latin1_codec_def
  strict_codec_def raising_def asc_def cont_def tail6_def

text \<open>
  Claim C1, as the code has it. The guard of \<open>ensure_unicode\<close> is \<open>isinstance(value,
  list)\<close>: a list, of any length, whose text the message can be built from raises
  \<open>TypeError\<close>, whatever the encoding. Tuples, sets and dicts are not rejected: each is
  returned as it came.
\<close>

theorem ensure_unicode_list_raises:
  "(format_error rt (PyList xs) = None \<longrightarrow> ensure_unicode rt (PyList xs) encoding = Inl TypeError)
   \<and> ensure_unicode rt (PyTuple ys) encoding = Inr (PyTuple ys)
   \<and> ensure_unicode rt (PySet ys) encoding = Inr (PySet ys)
   \<and> ensure_unicode rt (PyDict kvs) encoding = Inr (PyDict kvs)"
  by (simp add: ensure_unicode_def)

theorem ensure_unicode_list_raises_witness:
  "ensure_unicode sample_runtime (PyList [PyStr (asc ''a''), PyStr (asc ''b'')]) (asc ''utf-8'')
     = Inl TypeError
   \<and> ensure_unicode sample_runtime (PyList []) (asc ''utf-8'') = Inl TypeError"
proof -
  have "format_error sample_runtime (PyList xs) = None" for xs
    by (simp add: sample_runtime_def)
  then show ?thesis
    using ensure_unicode_list_raises [of sample_runtime "[PyStr (asc ''a''), PyStr (asc ''b'')]"]
      ensure_unicode_list_raises [of sample_runtime "[]"]
    by simp
qed

text \<open>
  Claim C1 as the specification words it speaks of every sequence or collection of
  several items. The tuple \<open>("a", "b")\<close> is one, and it is returned as it came.
\<close>

theorem ensure_unicode_tuple_returned:
  "ensure_unicode sample_runtime (PyTuple [PyStr (asc ''a''), PyStr (asc ''b'')]) (asc ''utf-8'')
     = Inr (PyTuple [PyStr (asc ''a''), PyStr (asc ''b'')])"
  by (simp add: ensure_unicode_def)

text \<open>
  Claim C10. A value that is neither a \<open>bytes\<close> object nor a list is returned unchanged
  and nothing is raised, tuples, sets and dicts included. So \<open>ensure_unicode\<close> raises
  for a list or for bytes only, and of the values that are not bytes only a list
  reaches the branch that raises.
\<close>

theorem ensure_unicode_other_unchanged:
  "((\<forall>b. v \<noteq> PyBytes b) \<and> (\<forall>xs. v \<noteq> PyList xs) \<longrightarrow> ensure_unicode rt v encoding = Inr v)
   \<and> (ensure_unicode rt v encoding = Inl err \<longrightarrow> (\<exists>xs. v = PyList xs) \<or> (\<exists>b. v = PyBytes b))"
  by (cases v) (auto simp: ensure_unicode_def)

theorem ensure_unicode_other_unchanged_witness:
  "ensure_unicode sample_runtime (PyDict [(PyStr (asc ''a''), PyInt 1)]) (asc ''utf-8'')
     = Inr (PyDict [(PyStr (asc ''a''), PyInt 1)])
   \<and> ensure_unicode sample_runtime (PySet [PyInt 1, PyInt 2]) (asc ''utf-8'')
     = Inr (PySet [PyInt 1, PyInt 2])
   \<and> ensure_unicode sample_runtime PyNone (asc ''utf-8'') = Inr PyNone"
  using ensure_unicode_other_unchanged [of "PyDict [(PyStr (asc ''a''), PyInt 1)]" sample_runtime "asc ''utf-8''"]
    ensure_unicode_other_unchanged [of "PySet [PyInt 1, PyInt 2]" sample_runtime "asc ''utf-8''"]
    ensure_unicode_other_unchanged [of PyNone sample_runtime "asc ''utf-8''"]
  by simp

text \<open>
  Claim C5. Bytes are decoded by \<open>value.decode(encoding)\<close>: the text it gives is the
  result, and an exception it raises (the bytes are not valid in the encoding, the
  encoding is unknown) is the exception of \<open>ensure_unicode\<close>. Text is returned as it
  is. The two paths agree on the example of the specification: the UTF-8 bytes
  \<open>63 61 66 C3 A9\<close> give the code points \<open>99 97 102 233\<close> (233 is the e with an acute
  accent), and the text of these code points is returned unchanged.
\<close>

theorem ensure_unicode_bytes_and_text:
  "(bytes_decode rt b encoding = Inr s \<longrightarrow> ensure_unicode rt (PyBytes b) encoding = Inr (PyStr s))
   \<and> (bytes_decode rt b encoding = Inl err \<longrightarrow> ensure_unicode rt (PyBytes b) encoding = Inl err)
   \<and> ensure_unicode rt (PyStr t) encoding = Inr (PyStr t)
   \<and> ensure_unicode sample_runtime (PyBytes [0x63, 0x61, 0x66, 0xC3, 0xA9]) (asc ''utf-8'')
       = Inr (PyStr [99, 97, 102, 233])
   \<and> ensure_unicode sample_runtime (PyStr [99, 97, 102, 233]) (asc ''utf-8'')
       = Inr (PyStr [99, 97, 102, 233])"
  by (simp add: ensure_unicode_def sample_decode_def sample_simps)

theorem ensure_unicode_bytes_and_text_witness:
  "ensure_unicode sample_runtime (PyBytes [0xC3, 0xA9]) (asc ''latin-1'') = Inr (PyStr [195, 169])
   \<and> ensure_unicode sample_runtime (PyBytes [0x63, 0xE9]) (asc ''utf-8'') = Inl UnicodeDecodeError
   \<and> ensure_unicode sample_runtime (PyBytes [0x63]) (asc ''klingon'') = Inl LookupError
   \<and> ensure_unicode sample_runtime (PyBytes []) (asc ''klingon'') = Inr (PyStr [])"
proof -
  have d1: "bytes_decode sample_runtime [0xC3, 0xA9] (asc ''latin-1'') = Inr [195, 169]"
    by (simp add: sample_decode_def sample_simps narrow_decode_def)
  have d2: "bytes_decode sample_runtime [0x63, 0xE9] (asc ''utf-8'') = Inl UnicodeDecodeError"
    by (simp add: sample_decode_def sample_simps)
  have d3: "bytes_decode sample_runtime [0x63] (asc ''klingon'') = Inl LookupError"
    by (simp add: sample_decode_def sample_simps)
  have d4: "bytes_decode sample_runtime [] (asc ''klingon'') = Inr []"
    by (simp add: sample_decode_def sample_simps)
  show ?thesis
    using ensure_unicode_bytes_and_text [of sample_runtime "[0xC3, 0xA9]" "asc ''latin-1''" "[195, 169]"]
      ensure_unicode_bytes_and_text [of sample_runtime "[0x63, 0xE9]" "asc ''utf-8''" _ UnicodeDecodeError]
      ensure_unicode_bytes_and_text [of sample_runtime "[0x63]" "asc ''klingon''" _ LookupError]
      ensure_unicode_bytes_and_text [of sample_runtime "[]" "asc ''klingon''" "[]"]
      d1 d2 d3 d4
    by simp
qed

section \<open>The token pattern, step by step\<close>

lemma in_class_wa: "in_class rt [Word, Lit 39] c = wa rt c"
  by (simp add: in_class_def wa_def)

lemma not_word_apostrophe: "\<not> is_word rt 39"
  by (simp add: is_word_def ascii_alnum_def)

lemma star_Nil: "rmatch rt (Star (Class as)) [] = [[]]"
  by simp

lemma star_Cons:
  "rmatch rt (Star (Class as)) (c # cs) =
     (if in_class rt as c then rmatch rt (Star (Class as)) cs @ [c # cs] else [c # cs])"
  by simp

lemma tails_Nil: "tails rt [] = []"
  by (simp add: tails_def)

lemma tails_Cons:
  "tails rt (d # ds) =
     (if is_word rt d then tails rt ds @ [ds] else if d = 39 then tails rt ds else [])"
  unfolding tails_def rmatch.simps(3) star_Cons
  by (auto simp: in_class_wa wa_def not_word_apostrophe)

lemma token_re_Nil: "rmatch rt token_re [] = []"
  by (simp add: token_re_def)

lemma token_re_Cons:
  "rmatch rt token_re (c # cs) = (if is_word rt c then tails rt cs @ [cs] else [])"
  by (simp add: token_re_def tails_def del: rmatch.simps(5))

lemma tails_shape:
  "r \<in> set (tails rt cs) \<Longrightarrow>
     \<exists>m. cs = m @ r \<and> m \<noteq> [] \<and> is_word rt (last m) \<and> (\<forall>x \<in> set m. wa rt x)"
proof (induction cs)
  case Nil
  then show ?case by (simp add: tails_Nil)
next
  case (Cons d ds)
  show ?case
  proof (cases "r \<in> set (tails rt ds)")
    case True
    then obtain m where m: "ds = m @ r" "m \<noteq> []" "is_word rt (last m)" "\<forall>x \<in> set m. wa rt x"
      using Cons.IH by blast
    from Cons.prems True have "wa rt d"
      by (auto simp: tails_Cons wa_def split: if_splits)
    with m have "d # ds = (d # m) @ r \<and> d # m \<noteq> [] \<and> is_word rt (last (d # m))
        \<and> (\<forall>x \<in> set (d # m). wa rt x)"
      by simp
    then show ?thesis by blast
  next
    case False
    with Cons.prems have "is_word rt d" "r = ds"
      by (auto simp: tails_Cons split: if_splits)
    then have "d # ds = [d] @ r \<and> [d] \<noteq> [] \<and> is_word rt (last [d]) \<and> (\<forall>x \<in> set [d]. wa rt x)"
      by (simp add: wa_def)
    then show ?thesis by blast
  qed
qed

lemma tok_end_split:
  "\<exists>m. cs = m @ tok_end rt cs \<and> (m = [] \<or> is_word rt (last m)) \<and> (\<forall>x \<in> set m. wa rt x)"
proof (cases "tails rt cs")
  case Nil
  then show ?thesis by (simp add: tok_end_def)
next
  case (Cons r rs)
  then have "r \<in> set (tails rt cs)" by simp
  from tails_shape[OF this] Cons show ?thesis
    by (auto simp: tok_end_def)
qed

lemma length_tok_end: "length (tok_end rt cs) \<le> length cs"
  using tok_end_split[of cs rt] by (metis length_append le_add2)

lemma findall_token_Nil: "findall rt token_re False [] = []"
  by (subst findall.simps) (simp add: token_re_Nil)

lemma findall_token_Cons:
  "findall rt token_re False (c # cs) =
     (if is_word rt c
      then (c # take (length cs - length (tok_end rt cs)) cs) # findall rt token_re False (tok_end rt cs)
      else findall rt token_re False cs)"
proof (cases "is_word rt c")
  case False
  then show ?thesis
    by (subst findall.simps) (simp add: token_re_Cons)
next
  case True
  have hd: "rmatch rt token_re (c # cs) = tok_end rt cs # tl (tails rt cs @ [cs])"
    using True by (simp add: token_re_Cons tok_end_def)
  have le: "length (tok_end rt cs) \<le> length cs" by (rule length_tok_end)
  then have "take (length (c # cs) - length (tok_end rt cs)) (c # cs)
      = c # take (length cs - length (tok_end rt cs)) cs"
    by (simp add: Suc_diff_le)
  with True le show ?thesis
    by (subst findall.simps) (simp add: hd)
qed

lemma tok_end_append:
  "tails rt r = [] \<Longrightarrow> m = [] \<or> is_word rt (last m) \<Longrightarrow> \<forall>x \<in> set m. wa rt x \<Longrightarrow>
     hd (tails rt (m @ r) @ ys # yss) = (if m = [] then ys else r)"
proof (induction m arbitrary: ys yss)
  case Nil
  then show ?case by simp
next
  case (Cons d m)
  show ?case
  proof (cases "m = []")
    case True
    with Cons.prems show ?thesis by (simp add: tails_Cons)
  next
    case False
    with Cons.prems have IH: "\<And>ys yss. hd (tails rt (m @ r) @ ys # yss) = r"
      using Cons.IH by simp
    have ne: "tails rt (m @ r) \<noteq> []"
    proof
      assume "tails rt (m @ r) = []"
      with IH[of "m @ r" "[]"] have "m @ r = r" by simp
      with False show False by simp
    qed
    then have *: "\<And>zs. hd (tails rt (m @ r) @ zs) = r"
      using IH by (metis hd_append2)
    from Cons.prems have "wa rt d" by simp
    then show ?thesis
      using * by (auto simp: tails_Cons wa_def)
  qed
qed

lemma tok_end_append':
  "tails rt r = [] \<Longrightarrow> m = [] \<or> is_word rt (last m) \<Longrightarrow> \<forall>x \<in> set m. wa rt x \<Longrightarrow>
     tok_end rt (m @ r) = r"
  unfolding tok_end_def using tok_end_append[of rt r m "m @ r" "[]"] by simp



lemma no_word_no_tokens:
  "\<forall>c \<in> set cs. \<not> is_word rt c \<Longrightarrow> findall rt token_re False cs = []"
  by (induction cs) (simp_all add: findall_token_Nil findall_token_Cons)


lemma py_split_Nil: "py_split [] = []"
  by (subst py_split.simps) simp

lemma py_split_space: "is_space c \<Longrightarrow> py_split (c # cs) = py_split cs"
  by (subst py_split.simps, subst (2) py_split.simps) simp

lemma py_split_nonspace:
  "\<not> is_space c \<Longrightarrow> py_split (c # cs) =
     (c # takeWhile (\<lambda>x. \<not> is_space x) cs) # py_split (dropWhile (\<lambda>x. \<not> is_space x) cs)"
  by (subst py_split.simps) simp

lemma findall_word_run:
  assumes "is_word rt c" "39 \<notin> set cs"
  shows "findall rt token_re False (c # cs) =
     (c # takeWhile (is_word rt) cs) # findall rt token_re False (dropWhile (is_word rt) cs)"
proof -
  let ?m = "takeWhile (is_word rt) cs" and ?r = "dropWhile (is_word rt) cs"
  have "tails rt ?r = []"
  proof (cases ?r)
    case Nil
    show ?thesis unfolding Nil by (rule tails_Nil)
  next
    case (Cons d ds)
    then have "\<not> is_word rt d" by (metis hd_dropWhile list.sel(1) list.distinct(1))
    moreover have "d \<in> set cs" using Cons by (metis list.set_intros(1) set_dropWhileD)
    ultimately show ?thesis using assms(2) Cons by (auto simp: tails_Cons)
  qed
  moreover have "?m = [] \<or> is_word rt (last ?m)"
    by (metis last_in_set set_takeWhileD)
  moreover have "\<forall>x \<in> set ?m. wa rt x"
    by (auto simp: wa_def dest: set_takeWhileD)
  ultimately have "tok_end rt (?m @ ?r) = ?r" by (rule tok_end_append')
  then have e: "tok_end rt cs = ?r" by simp
  have "take (length cs - length ?r) cs = ?m"
    by (metis append_eq_conv_conj takeWhile_dropWhile_id length_append add_diff_cancel_right')
  with e assms(1) show ?thesis by (simp add: findall_token_Cons)
qed

lemma findall_eq_split:
  "\<forall>c \<in> set cs. is_word rt c = (\<not> is_space c) \<Longrightarrow> findall rt token_re False cs = py_split cs"
proof (induction cs rule: length_induct)
  case (1 cs)
  show ?case
  proof (cases cs)
    case Nil
    then show ?thesis by (simp add: findall_token_Nil py_split_Nil)
  next
    case (Cons c r)
    have no39: "39 \<notin> set r"
    proof
      assume "39 \<in> set r"
      with "1.prems" Cons have "is_word rt 39 = (\<not> is_space 39)" by auto
      then show False by (simp add: not_word_apostrophe is_space_def)
    qed
    have eqP: "takeWhile (is_word rt) r = takeWhile (\<lambda>x. \<not> is_space x) r"
      using "1.prems" Cons by (intro takeWhile_cong) auto
    have eqD: "dropWhile (is_word rt) r = dropWhile (\<lambda>x. \<not> is_space x) r"
      using "1.prems" Cons by (intro dropWhile_cong) auto
    show ?thesis
    proof (cases "is_word rt c")
      case True
      then have ns: "\<not> is_space c" using "1.prems" Cons by auto
      have "length (dropWhile (is_word rt) r) < length cs"
        using length_dropWhile_le[of "is_word rt" r] Cons by simp
      moreover have "\<forall>x \<in> set (dropWhile (is_word rt) r). is_word rt x = (\<not> is_space x)"
        using "1.prems" Cons by (auto dest: set_dropWhileD)
      ultimately have "findall rt token_re False (dropWhile (is_word rt) r)
          = py_split (dropWhile (is_word rt) r)"
        using "1.IH" by blast
      then show ?thesis
        using True ns no39 Cons eqP eqD
        by (simp add: findall_word_run py_split_nonspace)
    next
      case False
      then have sp: "is_space c" using "1.prems" Cons by auto
      have "findall rt token_re False r = py_split r"
        using "1.IH" "1.prems" Cons by simp
      then show ?thesis
        using False sp Cons by (simp add: findall_token_Cons py_split_space)
    qed
  qed
qed

section \<open>Properties of \<open>_parse_into_words\<close>\<close>

lemmas word_simps = is_word_def ascii_alnum_def in_class_def

lemmas eval_findall = parse_into_words_def token_re_def findall.simps asc_def word_simps



text \<open>
  Claim C7, as the code has it. If every character of the text is a word character
  or a whitespace character (and none is both, as in Unicode, where no whitespace
  character is alphanumeric), the tokens are the text split at whitespace: the result
  of \<open>str.split()\<close>.
\<close>

theorem tokens_are_whitespace_split:
  "\<forall>c \<in> set s. is_word rt c = (\<not> is_space c) \<Longrightarrow> parse_into_words rt s = py_split s"
  unfolding parse_into_words_def by (rule findall_eq_split)

theorem tokens_are_whitespace_split_witness:
  "parse_into_words sample_runtime (asc ''two  words'') = py_split (asc ''two  words'')
   \<and> py_split (asc ''two  words'') = [asc ''two'', asc ''words'']"
proof -
  have h: "\<forall>c \<in> set (asc ''two  words''). is_word sample_runtime c = (\<not> is_space c)"
    by (simp add: asc_def word_simps is_space_def)
  have "py_split (asc ''two  words'') = [asc ''two'', asc ''words'']"
    by (simp add: asc_def py_split.simps is_space_def)
  then show ?thesis
    using tokens_are_whitespace_split [OF h] by simp
qed

text \<open>
  Claim C7 as the specification words it asks only that the text has no punctuation.
  The text \<open>a\<close>, U+0000, \<open>b\<close> has none and no whitespace either: splitting at whitespace
  leaves it whole, and the tokenizer cuts it in two at the control character, which
  \<open>\w\<close> does not match.
\<close>

theorem control_character_splits_token:
  "parse_into_words sample_runtime [97, 0, 98] = [[97], [98]]
   \<and> py_split [97, 0, 98] = [[97, 0, 98]]
   \<and> \<not> list_ex ascii_punctuation [97, 0, 98]"
  by (simp add: eval_findall py_split.simps is_space_def ascii_punctuation_def)

text \<open>
  Claim C8. The empty text has no tokens, and neither has a text without word
  characters, such as one of punctuation only. The result is a list in every case:
  \<open>re.findall\<close> raises nothing on a \<open>str\<close>.
\<close>

theorem no_word_characters_no_tokens:
  "parse_into_words rt [] = []
   \<and> ((\<forall>c \<in> set s. \<not> is_word rt c) \<longrightarrow> parse_into_words rt s = [])"
  using no_word_no_tokens [of s rt]
  by (simp add: parse_into_words_def findall_token_Nil)

theorem no_word_characters_no_tokens_witness:
  "parse_into_words sample_runtime (asc ''?! ... -- '') = []"
proof -
  have "\<forall>c \<in> set (asc ''?! ... -- ''). \<not> is_word sample_runtime c"
    by (simp add: asc_def word_simps)
  then show ?thesis
    using no_word_characters_no_tokens [of sample_runtime "asc ''?! ... -- ''"] by blast
qed

section \<open>Properties of \<open>load_file\<close> and \<open>write_file\<close>\<close>

subsection \<open>Descriptors\<close>

lemma fold_max_ge: "a \<le> fold max xs (a::nat) \<and> (\<forall>x \<in> set xs. x \<le> fold max xs a)"
proof (induction xs arbitrary: a)
  case Nil
  show ?case by simp
next
  case (Cons y ys)
  have 1: "max y a \<le> fold max ys (max y a)" using Cons.IH by blast
  have 2: "\<forall>x \<in> set ys. x \<le> fold max ys (max y a)" using Cons.IH by blast
  from 1 2 show ?case by auto
qed

lemma alloc_fd_fresh: "alloc_fd w \<notin> set (open_fds w)"
proof
  assume "alloc_fd w \<in> set (open_fds w)"
  then have "alloc_fd w \<le> fold max (open_fds w) 0" using fold_max_ge by blast
  then show False by (simp add: alloc_fd_def)
qed

lemma open_text_fds:
  "open_text rt filename encoding w = (res, w1) \<Longrightarrow>
     (case res of
        Inl e \<Rightarrow> w1 = w
      | Inr f \<Rightarrow> open_fds w1 = r_fd f # open_fds w \<and> r_fd f \<notin> set (open_fds w))"
  using alloc_fd_fresh [of w]
  by (auto simp: open_text_def split: codec_lookup.splits sum.splits)

lemma gzip_open_fds:
  assumes "gzip_open rt filename mode encoding w = (res, w1)"
    and "(\<exists>c. codecs rt encoding = Found c) \<or> (\<exists>e. files w filename = Inl e)"
  shows "case res of
           Inl e \<Rightarrow> open_fds w1 = open_fds w
         | Inr f \<Rightarrow> open_fds w1 = r_fd f # open_fds w \<and> r_fd f \<notin> set (open_fds w)"
  using assms alloc_fd_fresh [of w]
  by (auto simp: gzip_open_def Let_def split: gz_mode.splits codec_lookup.splits sum.splits)

lemma with_stream_fds:
  assumes opn: "\<And>res w1. opn w = (res, w1) \<Longrightarrow>
        (case res of
           Inl e \<Rightarrow> open_fds w1 = open_fds w
         | Inr h \<Rightarrow> open_fds w1 = fd_of h # open_fds w \<and> fd_of h \<notin> set (open_fds w))"
    and body: "\<And>h w'. open_fds (snd (body h w')) = open_fds w'"
  shows "open_fds (snd (with_stream opn fd_of body w)) = open_fds w"
proof (cases "opn w")
  case (Pair res w1)
  show ?thesis
  proof (cases res)
    case (Inl e)
    with Pair opn [OF Pair] show ?thesis by (simp add: with_stream_def)
  next
    case (Inr h)
    with opn [OF Pair] have o: "open_fds w1 = fd_of h # open_fds w" "fd_of h \<notin> set (open_fds w)"
      by simp_all
    obtain r w2 where b: "body h w1 = (r, w2)" by (cases "body h w1")
    with body [of h w1] have "open_fds w2 = open_fds w1" by simp
    with o Pair Inr b show ?thesis
      by (simp add: with_stream_def close_fd_def)
  qed
qed

lemma read_then_block_fds:
  assumes "\<And>s w'. open_fds (snd (block s w')) = open_fds w'"
  shows "open_fds (snd ((case stream_read rt fobj of
                            Inl e \<Rightarrow> (Inl e, w')
                          | Inr data \<Rightarrow> block data w'))) = open_fds w'"
  using assms by (cases "stream_read rt fobj") simp_all

subsection \<open>The suffix test and what is read\<close>

lemma slice_last3: "slice_from (- 3) s = drop (length s - 3) s"
  by (simp add: slice_from_def Let_def max_def nat_diff_distrib') 

lemma ascii_lower_dot: "(ascii_lower a = 46) = (a = 46)"
  by (auto simp: ascii_lower_def)

lemma ascii_lower_g: "(ascii_lower a = 103) = (a = 103 \<or> a = 71)"
  by (auto simp: ascii_lower_def)

lemma ascii_lower_z: "(ascii_lower a = 122) = (a = 122 \<or> a = 90)"
  by (auto simp: ascii_lower_def)

lemma asc_gz: "asc ''.gz'' = [46, 103, 122]"
  by (simp add: asc_def)

lemma map_eq_3: "(map f xs = [a, b, c]) = (\<exists>x y z. xs = [x, y, z] \<and> f x = a \<and> f y = b \<and> f z = c)"
  by (auto simp: map_eq_Cons_conv)

lemma drop_eq_suffix:
  "(drop (length s - 3) s = [x, y, z]) = (\<exists>pre. s = pre @ [x, y, z])"
proof
  assume d: "drop (length s - 3) s = [x, y, z]"
  have "s = take (length s - 3) s @ drop (length s - 3) s" by simp
  with d show "\<exists>pre. s = pre @ [x, y, z]" by metis
next
  assume "\<exists>pre. s = pre @ [x, y, z]"
  then show "drop (length s - 3) s = [x, y, z]" by auto
qed

lemma gz_suffix_ascii:
  assumes "list_all (\<lambda>c. c < 128) s"
  shows "(str_lower rt (slice_from (- 3) s) = asc ''.gz'')
     = (\<exists>pre g z. s = pre @ [46, g, z] \<and> (g = 103 \<or> g = 71) \<and> (z = 122 \<or> z = 90))"
proof -
  have "list_all (\<lambda>c. c < 128) (drop (length s - 3) s)"
    using assms by (auto simp: list_all_iff dest: in_set_dropD)
  then have "str_lower rt (slice_from (- 3) s) = map ascii_lower (drop (length s - 3) s)"
    by (simp add: str_lower_def slice_last3)
  then show ?thesis
    by (auto simp: asc_gz map_eq_3 drop_eq_suffix ascii_lower_dot ascii_lower_g ascii_lower_z)
qed

lemma load_file_keep:
  assumes "files w (fspath p) = Inr raw" "codecs rt e = Found c"
  shows "fst (load_file rt p e keep_text w) =
     (if str_lower rt (slice_from (- 3) (fspath p)) = asc ''.gz''
      then (case gzip_unpack rt raw of Inl err \<Rightarrow> Inl err | Inr b \<Rightarrow> decode_text c b)
      else decode_text c raw)"
  using assms
  by (cases p)
     (auto simp: load_file_def gzip_read_def with_stream_def gzip_open_def open_text_def
        stream_read_def keep_text_def Let_def split: sum.splits)

subsection \<open>Line ends and what is written\<close>

lemma un_cons: "c \<noteq> 13 \<Longrightarrow> universal_newlines (c # xs) = c # universal_newlines xs"
  by (cases xs) simp_all

lemma un_crlf: "universal_newlines (13 # 10 # xs) = 10 # universal_newlines xs"
  by simp

lemma un_id: "13 \<notin> set s \<Longrightarrow> universal_newlines s = s"
  by (induction s) (simp_all add: un_cons)

lemma write_newlines_lf: "linesep rt = [10] \<Longrightarrow> write_newlines rt s = s"
  by (induction s) (simp_all add: write_newlines_def)

lemma newlines_roundtrip:
  assumes "13 \<notin> set s" "linesep rt = [10] \<or> linesep rt = [13, 10]"
  shows "universal_newlines (write_newlines rt s) = s"
proof (cases "linesep rt = [10]")
  case True
  then show ?thesis using assms(1) by (simp add: write_newlines_lf un_id)
next
  case False
  with assms(2) have crlf: "linesep rt = [13, 10]" by simp
  from assms(1) show ?thesis
  proof (induction s)
    case Nil
    show ?case by (simp add: write_newlines_def)
  next
    case (Cons c cs)
    then have ih: "universal_newlines (write_newlines rt cs) = cs" and c: "c \<noteq> 13" by auto
    show ?case
    proof (cases "c = 10")
      case True
      then have "write_newlines rt (c # cs) = 13 # 10 # write_newlines rt cs"
        by (simp add: write_newlines_def crlf)
      then show ?thesis using True ih by (simp only: un_crlf)
    next
      case False
      then have "write_newlines rt (c # cs) = c # write_newlines rt cs"
        by (simp add: write_newlines_def)
      then show ?thesis using c ih by (simp add: un_cons)
    qed
  qed
qed

lemma write_file_ok:
  assumes "fst (write_file rt p e gz D w) = Inr ()"
  shows "\<exists>c b. (if gz then c = default_codec rt else codecs rt e = Found c)
           \<and> encoder c (write_newlines rt D) = Inr b
           \<and> files (snd (write_file rt p e gz D w)) (fspath p)
               = Inr (if gz then gzip_pack rt (fspath p) (clock w) b else b)"
  using assms
  by (auto simp: write_file_def with_stream_def gzip_open_wt_def open_text_w_def open_w_def
        stream_write_def stored_def close_fd_def Let_def
      split: if_splits option.splits sum.splits codec_lookup.splits)

subsection \<open>Closing the stream\<close>

text \<open>
  \<open>load_file\<close> is used as \<open>with load_file(f, e) as data: block\<close>. If the block, for its
  own part, leaves open what it found open, the descriptors open after the statement
  are the ones open before it, on every way out (the file does not open, reading
  raises, the block raises, the block returns), provided that the encoding is known,
  or the file does not open, or the name does not end in \<open>.gz\<close>.
\<close>

lemma load_file_closes_stream:
  assumes blk: "\<forall>s w'. open_fds (snd (block s w')) = open_fds w'"
    and ok: "(\<exists>c. codecs rt encoding = Found c) \<or> (\<exists>e. files w (fspath filename) = Inl e)
             \<or> str_lower rt (slice_from (- 3) (fspath filename)) \<noteq> asc ''.gz''"
  shows "open_fds (snd (load_file rt filename encoding block w)) = open_fds w"
proof -
  have blk': "\<And>s w'. open_fds (snd (block s w')) = open_fds w'" using blk by blast
  obtain n where n: "fspath filename = n" "(case filename of PathObj s \<Rightarrow> s | Str s \<Rightarrow> s) = n"
    by (cases filename) simp_all
  show ?thesis
  proof (cases "str_lower rt (slice_from (- 3) n) = asc ''.gz''")
    case True
    with ok n have k: "(\<exists>c. codecs rt encoding = Found c) \<or> (\<exists>e. files w n = Inl e)" by simp
    have "open_fds (snd (gzip_read rt n RT encoding block w)) = open_fds w"
      unfolding gzip_read_def
    proof (rule with_stream_fds)
      fix res w1
      assume "gzip_open rt n RT encoding w = (res, w1)"
      from gzip_open_fds [OF this k] show "case res of
             Inl e \<Rightarrow> open_fds w1 = open_fds w
           | Inr h \<Rightarrow> open_fds w1 = r_fd h # open_fds w \<and> r_fd h \<notin> set (open_fds w)" .
    next
      fix h w'
      show "open_fds (snd (case stream_read rt h of
                              Inl e \<Rightarrow> (Inl e, w')
                            | Inr data \<Rightarrow> block data w')) = open_fds w'"
        using blk' by (rule read_then_block_fds)
    qed
    with True n show ?thesis by (simp add: load_file_def)
  next
    case False
    have "open_fds (snd (with_stream (open_text rt n encoding) r_fd
               (\<lambda>fobj w. case stream_read rt fobj of
                             Inl e \<Rightarrow> (Inl e, w)
                           | Inr data \<Rightarrow> block data w) w)) = open_fds w"
    proof (rule with_stream_fds)
      fix res w1
      assume "open_text rt n encoding w = (res, w1)"
      from open_text_fds [OF this] show "case res of
             Inl e \<Rightarrow> open_fds w1 = open_fds w
           | Inr h \<Rightarrow> open_fds w1 = r_fd h # open_fds w \<and> r_fd h \<notin> set (open_fds w)"
        by (cases res) simp_all
    next
      fix h w'
      show "open_fds (snd (case stream_read rt h of
                              Inl e \<Rightarrow> (Inl e, w')
                            | Inr data \<Rightarrow> block data w')) = open_fds w'"
        using blk' by (rule read_then_block_fds)
    qed
    with False n show ?thesis by (simp add: load_file_def)
  qed
qed

text \<open>
  What the block gets is the text of the whole file, read to its end, and not the
  stream; the block runs while the stream is open, and the stream is closed after it,
  whatever its outcome. If reading raises, the block does not run and the stream is
  closed: the world is as it was.
\<close>

lemma close_fresh: "close_fd (alloc_fd w) (w\<lparr>open_fds := alloc_fd w # open_fds w\<rparr>) = w"
  using alloc_fd_fresh [of w] by (simp add: close_fd_def)

lemma load_file_hands_text:
  assumes "files w (fspath p) = Inr raw" "codecs rt e = Found c"
    and "(if str_lower rt (slice_from (- 3) (fspath p)) = asc ''.gz''
          then gzip_unpack rt raw else Inr raw) = Inr b"
    and "decoder c b = Inr t"
  shows "load_file rt p e block w =
     (case block (universal_newlines t) (w\<lparr>open_fds := alloc_fd w # open_fds w\<rparr>) of
        (res, w2) \<Rightarrow> (res, close_fd (alloc_fd w) w2))"
  using assms
  by (cases p)
     (auto simp: load_file_def gzip_read_def with_stream_def gzip_open_def open_text_def
        stream_read_def decode_text_def Let_def split: if_splits)

lemma load_file_read_raises:
  assumes "files w (fspath p) = Inr raw" "codecs rt e = Found c"
    and "(if str_lower rt (slice_from (- 3) (fspath p)) = asc ''.gz''
          then gzip_unpack rt raw else Inr raw) = Inl err
         \<or> (\<exists>b. (if str_lower rt (slice_from (- 3) (fspath p)) = asc ''.gz''
                   then gzip_unpack rt raw else Inr raw) = Inr b
                \<and> decoder c b = Inl err)"
  shows "load_file rt p e block w = (Inl err, w)"
  using assms
  by (cases p)
     (auto simp: load_file_def gzip_read_def with_stream_def gzip_open_def open_text_def
        stream_read_def decode_text_def Let_def close_fresh split: if_splits)

subsection \<open>Evaluation of the examples\<close>

lemmas io_simps =
  write_file_def load_file_def gzip_read_def with_stream_def gzip_open_def open_text_def
  stream_read_def keep_text_def open_text_w_def gzip_open_wt_def open_w_def
  stream_write_def stored_def close_fd_def decode_text_def write_newlines_def

lemmas sample_io_simps =
  sample_world_def empty_world_def magic_pack_def str_lower_def slice_from_def
  ascii_lower_def utf8_bytes_def alloc_fd_def

lemmas eval_io = io_simps sample_simps sample_io_simps Let_def

subsection \<open>The claims\<close>

text \<open>
  Claim C4. \<open>load_file\<close> takes a \<open>Path\<close> or a string and looks at nothing but the last
  three characters of the name, lowered: if they are \<open>.gz\<close> the file is read through
  the gzip layer, otherwise as it is, in both cases decoded with the given encoding,
  and what the caller's block gets is the text of the whole file (\<open>decode_text\<close> of all
  its bytes). For a name in ASCII the test holds exactly for the endings \<open>.gz\<close>, \<open>.gZ\<close>,
  \<open>.Gz\<close> and \<open>.GZ\<close>. A file that is not gzip data under such a name fails with the
  exception of the gzip layer, whichever it is; it is not read as plain text.
\<close>

theorem load_file_by_suffix:
  "(files w (fspath p) = Inr raw \<and> codecs rt e = Found c \<longrightarrow>
      fst (load_file rt p e keep_text w) =
        (if str_lower rt (slice_from (- 3) (fspath p)) = asc ''.gz''
         then (case gzip_unpack rt raw of Inl err \<Rightarrow> Inl err | Inr b \<Rightarrow> decode_text c b)
         else decode_text c raw))
   \<and> slice_from (- 3) (fspath p) = drop (length (fspath p) - 3) (fspath p)
   \<and> (list_all (\<lambda>c. c < 128) (fspath p) \<longrightarrow>
        (str_lower rt (slice_from (- 3) (fspath p)) = asc ''.gz'')
          = (\<exists>pre g z. fspath p = pre @ [46, g, z] \<and> (g = 103 \<or> g = 71) \<and> (z = 122 \<or> z = 90)))"
  using load_file_keep [of w p raw rt e c] gz_suffix_ascii [of "fspath p" rt]
  by (simp add: slice_last3)

theorem load_file_by_suffix_witness:
  "fst (load_file sample_runtime (PathObj (asc ''d.GZ'')) (asc ''utf-8'') keep_text sample_world)
     = Inr [104, 233, 10]
   \<and> fst (load_file sample_runtime (Str (asc ''d.txt'')) (asc ''utf-8'') keep_text sample_world)
     = Inr [104, 233, 10]
   \<and> fst (load_file sample_runtime (Str (asc ''plain.gz'')) (asc ''utf-8'') keep_text sample_world)
     = Inl BadGzipFile"
proof -
  have c: "codecs sample_runtime (asc ''utf-8'') = Found utf8_codec"
    by (simp add: sample_simps)
  have f1: "files sample_world (fspath (PathObj (asc ''d.GZ'')))
      = Inr [0x1F, 0x8B, 0x68, 0xC3, 0xA9, 0x0D, 0x0A]"
    by (simp add: sample_world_def asc_def)
  have f2: "files sample_world (fspath (Str (asc ''d.txt''))) = Inr [0x68, 0xC3, 0xA9, 0x0D, 0x0A]"
    by (simp add: sample_world_def asc_def)
  have f3: "files sample_world (fspath (Str (asc ''plain.gz''))) = Inr [0x68, 0x69]"
    by (simp add: sample_world_def asc_def)
  have d: "decode_text utf8_codec [0x68, 0xC3, 0xA9, 0x0D, 0x0A] = Inr [104, 233, 10]"
    by (simp add: decode_text_def sample_simps)
  have u: "gzip_unpack sample_runtime [0x1F, 0x8B, 0x68, 0xC3, 0xA9, 0x0D, 0x0A]
      = Inr [0x68, 0xC3, 0xA9, 0x0D, 0x0A]"
      "gzip_unpack sample_runtime [0x68, 0x69] = Inl BadGzipFile"
    by (simp_all add: sample_runtime_def)
  have s: "str_lower sample_runtime (slice_from (- 3) (asc ''d.GZ'')) = asc ''.gz''"
      "str_lower sample_runtime (slice_from (- 3) (asc ''d.txt'')) \<noteq> asc ''.gz''"
      "str_lower sample_runtime (slice_from (- 3) (asc ''plain.gz'')) = asc ''.gz''"
    by (simp_all add: str_lower_def slice_from_def ascii_lower_def asc_def)
  show ?thesis
    using load_file_by_suffix [of sample_world "PathObj (asc ''d.GZ'')" _ sample_runtime "asc ''utf-8''" utf8_codec]
      load_file_by_suffix [of sample_world "Str (asc ''d.txt'')" _ sample_runtime "asc ''utf-8''" utf8_codec]
      load_file_by_suffix [of sample_world "Str (asc ''plain.gz'')" _ sample_runtime "asc ''utf-8''" utf8_codec]
      c f1 f2 f3 d u s
    by simp
qed

text \<open>
  Claim C2. With \<open>gzipped\<close> set, \<open>write_file\<close> does the same for any two encodings: the
  same outcome and the same world after it, file contents included (for the same
  world before it, whose clock the gzip header records). What the file then holds is
  the gzip member of the text encoded with the default codec of text streams.
\<close>

theorem write_file_gzipped_ignores_encoding:
  "write_file rt p e1 True d w = write_file rt p e2 True d w
   \<and> (write_error w (fspath p) = None
        \<and> encoder (default_codec rt) (write_newlines rt d) = Inr b \<longrightarrow>
        fst (write_file rt p e1 True d w) = Inr ()
        \<and> files (snd (write_file rt p e1 True d w)) (fspath p)
            = Inr (gzip_pack rt (fspath p) (clock w) b))"
  by (simp add: write_file_def with_stream_def gzip_open_wt_def open_w_def stream_write_def
        stored_def close_fd_def Let_def)

theorem write_file_gzipped_ignores_encoding_witness:
  "files (snd (write_file sample_runtime (Str (asc ''w.gz'')) (asc ''latin-1'') True [104, 233]
                 empty_world)) (asc ''w.gz'')
     = Inr [0x1F, 0x8B, 0x68, 0xC3, 0xA9]
   \<and> files (snd (write_file sample_runtime (Str (asc ''w.gz'')) (asc ''ascii'') True [104, 233]
                 empty_world)) (asc ''w.gz'')
     = Inr [0x1F, 0x8B, 0x68, 0xC3, 0xA9]"
proof -
  have w: "write_error empty_world (fspath (Str (asc ''w.gz''))) = None"
    by (simp add: empty_world_def)
  have e: "encoder (default_codec sample_runtime) (write_newlines sample_runtime [104, 233])
      = Inr [0x68, 0xC3, 0xA9]"
    by (simp add: sample_simps write_newlines_def utf8_bytes_def)
  have g: "gzip_pack sample_runtime (fspath (Str (asc ''w.gz''))) (clock empty_world) [0x68, 0xC3, 0xA9]
      = [0x1F, 0x8B, 0x68, 0xC3, 0xA9]"
    by (simp add: sample_runtime_def magic_pack_def)
  show ?thesis
    using write_file_gzipped_ignores_encoding
        [of sample_runtime "Str (asc ''w.gz'')" "asc ''latin-1''" "[104, 233]" empty_world
            "asc ''ascii''" "[0x68, 0xC3, 0xA9]"] w e g
    by (metis fspath.simps(2))
qed

text \<open>
  Claim C3, as the code has it. Let \<open>write_file\<close> succeed for a text without carriage
  returns, with \<open>gzipped\<close> set exactly if the name ends in \<open>.gz\<close> as \<open>load_file\<close> tests it,
  on a platform whose line separator is \<open>\n\<close> or \<open>\r\n\<close>, and let the codec of the
  encoding decode what it encoded for this text. Then \<open>load_file\<close> with the same name
  and encoding yields the text unchanged: in the plain mode as it stands, and in the
  compressed mode if the encoding is the one that compressed text streams use by
  default (\<open>write_file\<close> does not pass its encoding on to \<open>gzip.open\<close>) and the gzip
  layer unpacks what it packed.
\<close>

theorem write_then_load:
  assumes ok: "fst (write_file rt p e gz D w) = Inr ()"
    and suffix: "gz = (str_lower rt (slice_from (- 3) (fspath p)) = asc ''.gz'')"
    and cr: "13 \<notin> set D"
    and sep: "linesep rt = [10] \<or> linesep rt = [13, 10]"
    and lossless: "\<forall>c b. codecs rt e = Found c \<longrightarrow> encoder c (write_newlines rt D) = Inr b
                     \<longrightarrow> decoder c b = Inr (write_newlines rt D)"
    and gzc: "gz \<longrightarrow> codecs rt e = Found (default_codec rt)
                \<and> (\<forall>b. gzip_unpack rt (gzip_pack rt (fspath p) (clock w) b) = Inr b)"
  shows "fst (load_file rt p e keep_text (snd (write_file rt p e gz D w))) = Inr D"
proof -
  let ?w = "snd (write_file rt p e gz D w)"
  from write_file_ok [OF ok] obtain c b where
    c: "if gz then c = default_codec rt else codecs rt e = Found c"
    and b: "encoder c (write_newlines rt D) = Inr b"
    and f: "files ?w (fspath p) = Inr (if gz then gzip_pack rt (fspath p) (clock w) b else b)"
    by blast
  have ce: "codecs rt e = Found c" using c gzc by (cases gz) simp_all
  with lossless b have d: "decoder c b = Inr (write_newlines rt D)" by blast
  have t: "decode_text c b = Inr D"
    using d newlines_roundtrip [OF cr sep] by (simp add: decode_text_def)
  show ?thesis
  proof (cases gz)
    case True
    with gzc have "gzip_unpack rt (gzip_pack rt (fspath p) (clock w) b) = Inr b" by blast
    with True suffix f t show ?thesis
      using load_file_keep [of ?w p _ rt e c, OF _ ce] by simp
  next
    case False
    with suffix f t show ?thesis
      using load_file_keep [of ?w p _ rt e c, OF _ ce] by simp
  qed
qed

theorem write_then_load_witness:
  "fst (load_file sample_runtime (Str (asc ''out.gz'')) (asc ''utf-8'') keep_text
         (snd (write_file sample_runtime (Str (asc ''out.gz'')) (asc ''utf-8'') True
                [104, 233, 10, 8364] empty_world))) = Inr [104, 233, 10, 8364]
   \<and> fst (load_file sample_runtime (PathObj (asc ''out.txt'')) (asc ''latin-1'') keep_text
           (snd (write_file sample_runtime (PathObj (asc ''out.txt'')) (asc ''latin-1'') False
                  [104, 233, 10] empty_world))) = Inr [104, 233, 10]"
proof -
  have ok1: "fst (write_file sample_runtime (Str (asc ''out.gz'')) (asc ''utf-8'') True
                [104, 233, 10, 8364] empty_world) = Inr ()"
    by (simp add: eval_io)
  have sf1: "True = (str_lower sample_runtime (slice_from (- 3) (fspath (Str (asc ''out.gz''))))
                = asc ''.gz'')"
    by (simp add: str_lower_def slice_from_def ascii_lower_def asc_def)
  have cr1: "13 \<notin> set [104, 233, 10, 8364::nat]" by simp
  have sep: "linesep sample_runtime = [10] \<or> linesep sample_runtime = [13, 10]"
    by (simp add: sample_runtime_def)
  have ll1: "\<forall>c b. codecs sample_runtime (asc ''utf-8'') = Found c
        \<longrightarrow> encoder c (write_newlines sample_runtime [104, 233, 10, 8364]) = Inr b
        \<longrightarrow> decoder c b = Inr (write_newlines sample_runtime [104, 233, 10, 8364])"
    by (auto simp: sample_simps write_newlines_def utf8_bytes_def)
  have gz1: "True \<longrightarrow> codecs sample_runtime (asc ''utf-8'') = Found (default_codec sample_runtime)
        \<and> (\<forall>b. gzip_unpack sample_runtime
                 (gzip_pack sample_runtime (fspath (Str (asc ''out.gz''))) (clock empty_world) b)
               = Inr b)"
    by (simp add: sample_simps magic_pack_def)
  have ok2: "fst (write_file sample_runtime (PathObj (asc ''out.txt'')) (asc ''latin-1'') False
                [104, 233, 10] empty_world) = Inr ()"
    by (simp add: eval_io narrow_encode_def)
  have sf2: "False = (str_lower sample_runtime (slice_from (- 3) (fspath (PathObj (asc ''out.txt''))))
                = asc ''.gz'')"
    by (simp add: str_lower_def slice_from_def ascii_lower_def asc_def)
  have cr2: "13 \<notin> set [104, 233, 10::nat]" by simp
  have ll2: "\<forall>c b. codecs sample_runtime (asc ''latin-1'') = Found c
        \<longrightarrow> encoder c (write_newlines sample_runtime [104, 233, 10]) = Inr b
        \<longrightarrow> decoder c b = Inr (write_newlines sample_runtime [104, 233, 10])"
    by (auto simp: sample_simps write_newlines_def narrow_encode_def narrow_decode_def)
  have gz2: "False \<longrightarrow> codecs sample_runtime (asc ''latin-1'') = Found (default_codec sample_runtime)
        \<and> (\<forall>b. gzip_unpack sample_runtime
                 (gzip_pack sample_runtime (fspath (PathObj (asc ''out.txt''))) (clock empty_world) b)
               = Inr b)"
    by simp
  show ?thesis
    using write_then_load [OF ok1 sf1 cr1 sep ll1 gz1] write_then_load [OF ok2 sf2 cr2 sep ll2 gz2]
    by simp
qed

text \<open>
  Claim C3 as the specification words it holds for every text. The text \<open>a\<close>, carriage
  return, \<open>b\<close> is written without an error in both modes, and comes back from both
  with a line feed in the place of the carriage return: text streams translate line
  ends when they read.
\<close>

theorem carriage_return_not_preserved:
  "fst (write_file sample_runtime (Str (asc ''out.txt'')) (asc ''utf-8'') False [97, 13, 98]
         empty_world) = Inr ()
   \<and> fst (load_file sample_runtime (Str (asc ''out.txt'')) (asc ''utf-8'') keep_text
           (snd (write_file sample_runtime (Str (asc ''out.txt'')) (asc ''utf-8'') False
                  [97, 13, 98] empty_world))) = Inr [97, 10, 98]
   \<and> fst (write_file sample_runtime (Str (asc ''out.gz'')) (asc ''utf-8'') True [97, 13, 98]
         empty_world) = Inr ()
   \<and> fst (load_file sample_runtime (Str (asc ''out.gz'')) (asc ''utf-8'') keep_text
           (snd (write_file sample_runtime (Str (asc ''out.gz'')) (asc ''utf-8'') True
                  [97, 13, 98] empty_world))) = Inr [97, 10, 98]"
  by (simp add: eval_io)

text \<open>
  The compressed mode writes with the default codec whatever encoding it is given. On
  an interpreter whose default is UTF-8, an e with an acute accent written and read
  back with \<open>latin-1\<close> comes back as two characters.
\<close>

lemma gzip_write_then_read_other_encoding:
  "fst (load_file sample_runtime (Str (asc ''out.gz'')) (asc ''latin-1'') keep_text
         (snd (write_file sample_runtime (Str (asc ''out.gz'')) (asc ''latin-1'') True
                [233] empty_world))) = Inr [195, 169]"
  by (simp add: eval_io narrow_decode_def)

text \<open>
  Claim C9 asks that the stream is closed on every way out of \<open>load_file\<close>. One way out
  leaves it open. The file \<open>d.GZ\<close> exists and \<open>klingon\<close> is no encoding: \<open>gzip.open\<close> opens
  the file, fails with \<open>LookupError\<close> when it puts the text layer on it and closes
  nothing; the \<open>with\<close> of \<open>__gzip_read\<close> is never entered, and \<open>load_file\<close> raises with
  the descriptor still open. On the plain branch, with \<open>d.txt\<close>, the same call leaves
  nothing open, and with a known encoding both branches close the stream, also when
  the caller's block raises.
\<close>

theorem load_file_leaves_gzip_open:
  "open_fds sample_world = []
   \<and> fst (load_file sample_runtime (Str (asc ''d.GZ'')) (asc ''klingon'') keep_text sample_world)
       = Inl LookupError
   \<and> open_fds (snd (load_file sample_runtime (Str (asc ''d.GZ'')) (asc ''klingon'') keep_text
                      sample_world)) = [1]
   \<and> fst (load_file sample_runtime (Str (asc ''d.txt'')) (asc ''klingon'') keep_text sample_world)
       = Inl LookupError
   \<and> open_fds (snd (load_file sample_runtime (Str (asc ''d.txt'')) (asc ''klingon'') keep_text
                      sample_world)) = []
   \<and> load_file sample_runtime (Str (asc ''d.GZ'')) (asc ''utf-8'')
         (\<lambda>data w. (Inl ValueError :: py_error + unit, w)) sample_world
       = (Inl ValueError, sample_world)
   \<and> load_file sample_runtime (Str (asc ''d.GZ'')) (asc ''utf-8'')
         (\<lambda>data w. (Inr (data, open_fds w), w)) sample_world
       = (Inr ([104, 233, 10], [1]), sample_world)"
  by (simp add: eval_io)

end
